theory Spec2Isabelle
  imports Main
begin

section \<open>The generic finite-state-machine engine\<close>

subsection \<open>Configuration and engine\<close>

text \<open>
  \<^verbatim>\<open>FSMConfig[S, I]\<close> holds three slices, a state and the nested Go map
  \<^verbatim>\<open>map[S]map[I]S\<close>. A Go map is modelled as an association list: lookups
  go through \<open>map_of\<close>, and a \<^verbatim>\<open>range\<close> loop visits the pairs in the order of the
  list, so that every iteration order Go may choose is some list. A \<^verbatim>\<open>nil\<close> map and
  an empty map are both \<open>[]\<close> (reading and ranging treat them alike).
\<close>

record ('s, 'i) FSMConfig =
  States :: "'s list"
  Alphabet :: "'i list"
  InitialState :: 's
  FinalStates :: "'s list"
  Transitions :: "('s \<times> ('i \<times> 's) list) list"

text \<open>
  The engine. The two lookup sets are Go maps to \<^verbatim>\<open>struct{}\<close>, that is, sets of keys.
  Methods have a pointer receiver and mutate the engine in place; the model passes the
  engine in and returns the updated one.
\<close>

record ('s, 'i) FSM =
  config :: "('s, 'i) FSMConfig"
  currentState :: 's
  stateHistory :: "'s list"
  alphabetSet :: "'i set"
  finalStateSet :: "'s set"

subsection \<open>Errors\<close>

text \<open>
  The package declares seven sentinel errors with \<^verbatim>\<open>errors.New\<close>. An error value is
  either a sentinel itself, or a sentinel wrapped by \<^verbatim>\<open>fmt.Errorf\<close> with \<^verbatim>\<open>%w\<close> and
  a message built from the offending values, or (in \<^verbatim>\<open>Process\<close>) an error wrapped
  once more together with a position. The message formats are kept as constructors:
  \<^item> \<open>Value s\<close>: \<^verbatim>\<open>"%w: %v"\<close>
  \<^item> \<open>FromState s\<close>: \<^verbatim>\<open>"%w: from state %v"\<close>
  \<^item> \<open>InputNotInAlphabet x\<close>: \<^verbatim>\<open>"%w: input %v not in alphabet"\<close>
  \<^item> \<open>ToState s\<close>: \<^verbatim>\<open>"%w: to state %v"\<close>
  \<^item> \<open>ForState s\<close>: \<^verbatim>\<open>"%w for state: %v"\<close>
  \<^item> \<open>FromStateWithInput s x\<close>: \<^verbatim>\<open>"%w from state %v with input %v"\<close>
  \<^item> \<open>AtPosition i e\<close>: \<^verbatim>\<open>"error at position %d: %w"\<close>
\<close>

datatype sentinel =
    ErrNoTransition
  | ErrInvalidInput
  | ErrNoStates
  | ErrNoAlphabet
  | ErrInvalidInitial
  | ErrInvalidFinal
  | ErrInvalidTransition

datatype ('s, 'i) detail =
    Value 's
  | FromState 's
  | InputNotInAlphabet 'i
  | ToState 's
  | ForState 's
  | FromStateWithInput 's 'i

datatype ('s, 'i) error =
    Sentinel sentinel
  | Wrap sentinel "('s, 'i) detail"
  | AtPosition nat "('s, 'i) error"

text \<open>The sentinel at the end of the \<^verbatim>\<open>%w\<close> chain: the kind \<^verbatim>\<open>errors.Is\<close> matches.\<close>

fun sentinel_of :: "('s, 'i) error \<Rightarrow> sentinel" where
  "sentinel_of (Sentinel k) = k"
| "sentinel_of (Wrap k d) = k"
| "sentinel_of (AtPosition i e) = sentinel_of e"

subsection \<open>Validation and construction\<close>

text \<open>The loop over \<^verbatim>\<open>config.FinalStates\<close>: the first undeclared final state is reported.\<close>

fun validateFinalStates :: "'s set \<Rightarrow> 's list \<Rightarrow> ('s, 'i) error option" where
  "validateFinalStates stateSet [] = None"
| "validateFinalStates stateSet (finalState # rest) =
     (if finalState \<notin> stateSet then Some (Wrap ErrInvalidFinal (Value finalState))
      else validateFinalStates stateSet rest)"

text \<open>The inner loop over one state's table: symbol first, destination second.\<close>

fun validateInner :: "'s set \<Rightarrow> 'i set \<Rightarrow> ('i \<times> 's) list \<Rightarrow> ('s, 'i) error option" where
  "validateInner stateSet alphSet [] = None"
| "validateInner stateSet alphSet ((input, toState) # rest) =
     (if input \<notin> alphSet then Some (Wrap ErrInvalidInput (InputNotInAlphabet input))
      else if toState \<notin> stateSet then Some (Wrap ErrInvalidTransition (ToState toState))
      else validateInner stateSet alphSet rest)"

text \<open>The outer loop over \<^verbatim>\<open>config.Transitions\<close>: the key is checked before its table.\<close>

fun validateTransitions ::
  "'s set \<Rightarrow> 'i set \<Rightarrow> ('s \<times> ('i \<times> 's) list) list \<Rightarrow> ('s, 'i) error option" where
  "validateTransitions stateSet alphSet [] = None"
| "validateTransitions stateSet alphSet ((fromState, transitions) # rest) =
     (if fromState \<notin> stateSet then Some (Wrap ErrInvalidTransition (FromState fromState))
      else (case validateInner stateSet alphSet transitions of
              Some err \<Rightarrow> Some err
            | None \<Rightarrow> validateTransitions stateSet alphSet rest))"

definition validateAndBuildLookupSets ::
  "('s, 'i) FSMConfig \<Rightarrow> ('s, 'i) error + ('i set \<times> 's set)" where
  "validateAndBuildLookupSets cfg =
     (if length (States cfg) = 0 then Inl (Sentinel ErrNoStates)
      else if length (Alphabet cfg) = 0 then Inl (Sentinel ErrNoAlphabet)
      else
        let stateSet = set (States cfg) in
        if InitialState cfg \<notin> stateSet then Inl (Sentinel ErrInvalidInitial)
        else
          (case (if length (FinalStates cfg) > 0
                 then validateFinalStates stateSet (FinalStates cfg) else None) of
             Some err \<Rightarrow> Inl err
           | None \<Rightarrow>
               let alphSet = set (Alphabet cfg) in
               (case validateTransitions stateSet alphSet (Transitions cfg) of
                  Some err \<Rightarrow> Inl err
                | None \<Rightarrow> Inr (alphSet, set (FinalStates cfg)))))"

definition NewFSM :: "('s, 'i) FSMConfig \<Rightarrow> ('s, 'i) error + ('s, 'i) FSM" where
  "NewFSM cfg =
     (case validateAndBuildLookupSets cfg of
        Inl err \<Rightarrow> Inl err
      | Inr (alphSet, finalSet) \<Rightarrow>
          Inr \<lparr>config = cfg, currentState = InitialState cfg,
               stateHistory = [InitialState cfg],
               alphabetSet = alphSet, finalStateSet = finalSet\<rparr>)"

subsection \<open>Running the engine\<close>

definition Reset :: "('s, 'i) FSM \<Rightarrow> ('s, 'i) FSM" where
  "Reset f =
     (let f1 = f\<lparr>currentState := InitialState (config f)\<rparr>
      in f1\<lparr>stateHistory := [currentState f1]\<rparr>)"

definition CurrentState :: "('s, 'i) FSM \<Rightarrow> 's" where
  "CurrentState f = currentState f"

text \<open>\<^verbatim>\<open>StateHistory\<close> returns a fresh copy of the slice: the same sequence of states.\<close>

definition StateHistory :: "('s, 'i) FSM \<Rightarrow> 's list" where
  "StateHistory f = stateHistory f"

text \<open>
  \<^verbatim>\<open>Transition\<close> returns the engine and \<^verbatim>\<open>nil\<close> (\<open>None\<close>) or an error. Both failing
  branches return before any assignment.
\<close>

definition Transition :: "('s, 'i) FSM \<Rightarrow> 'i \<Rightarrow> ('s, 'i) FSM \<times> ('s, 'i) error option" where
  "Transition f input =
     (case map_of (Transitions (config f)) (currentState f) of
        None \<Rightarrow> (f, Some (Wrap ErrNoTransition (ForState (currentState f))))
      | Some stateTransitions \<Rightarrow>
          (case map_of stateTransitions input of
             None \<Rightarrow> (f, Some (Wrap ErrNoTransition (FromStateWithInput (currentState f) input)))
           | Some nextState \<Rightarrow>
               (f\<lparr>currentState := nextState,
                  stateHistory := stateHistory f @ [nextState]\<rparr>, None)))"

text \<open>The \<^verbatim>\<open>range\<close> loop of \<^verbatim>\<open>Process\<close>, with its index \<open>i\<close>.\<close>

fun Process_loop ::
  "nat \<Rightarrow> ('s, 'i) FSM \<Rightarrow> 'i list \<Rightarrow> ('s, 'i) FSM \<times> ('s, 'i) error option" where
  "Process_loop i f [] = (f, None)"
| "Process_loop i f (input # rest) =
     (case Transition f input of
        (f', Some err) \<Rightarrow> (f', Some (AtPosition i err))
      | (f', None) \<Rightarrow> Process_loop (Suc i) f' rest)"

definition Process :: "('s, 'i) FSM \<Rightarrow> 'i list \<Rightarrow> ('s, 'i) FSM \<times> ('s, 'i) error option" where
  "Process f inputs = Process_loop 0 f inputs"

definition Execute :: "('s, 'i) FSM \<Rightarrow> 'i list \<Rightarrow> ('s, 'i) FSM \<times> ('s, 'i) error option" where
  "Execute f inputs = (let f' = Reset f in Process f' inputs)"

definition IsInFinalState :: "('s, 'i) FSM \<Rightarrow> bool" where
  "IsInFinalState f =
     (if finalStateSet f = {} then False else currentState f \<in> finalStateSet f)"

definition ValidateInput :: "('s, 'i) FSM \<Rightarrow> 'i \<Rightarrow> bool" where
  "ValidateInput f input = (input \<in> alphabetSet f)"

section \<open>The modulo-three wrapper\<close>

text \<open>
  \<^verbatim>\<open>ModState\<close> is a Go \<^verbatim>\<open>int\<close> and \<^verbatim>\<open>BinarySymbol\<close> a \<^verbatim>\<open>rune\<close>; the code compares them
  and converts between them and never computes with them, so both are \<open>int\<close> here.
\<close>

type_synonym ModState = int
type_synonym BinarySymbol = int

abbreviation (input) ModState0 :: ModState where "ModState0 \<equiv> 0"
abbreviation (input) ModState1 :: ModState where "ModState1 \<equiv> 1"
abbreviation (input) ModState2 :: ModState where "ModState2 \<equiv> 2"

text \<open>The runes \<^verbatim>\<open>'0'\<close> and \<^verbatim>\<open>'1'\<close>.\<close>

abbreviation (input) Binary0 :: BinarySymbol where "Binary0 \<equiv> 48"
abbreviation (input) Binary1 :: BinarySymbol where "Binary1 \<equiv> 49"

record ModThreeGeneric =
  fsm :: "(ModState, BinarySymbol) FSM"

definition modthree_config :: "(ModState, BinarySymbol) FSMConfig" where
  "modthree_config =
     \<lparr>States = [ModState0, ModState1, ModState2],
      Alphabet = [Binary0, Binary1],
      InitialState = ModState0,
      FinalStates = [ModState0, ModState1, ModState2],
      Transitions =
        [(ModState0, [(Binary0, ModState0), (Binary1, ModState1)]),
         (ModState1, [(Binary0, ModState2), (Binary1, ModState0)]),
         (ModState2, [(Binary0, ModState1), (Binary1, ModState2)])]\<rparr>"

text \<open>\<^verbatim>\<open>NewModThreeGeneric\<close> panics when \<open>NewFSM\<close> fails: \<open>None\<close>.\<close>

definition NewModThreeGeneric :: "ModThreeGeneric option" where
  "NewModThreeGeneric =
     (case NewFSM modthree_config of
        Inl err \<Rightarrow> None
      | Inr f \<Rightarrow> Some \<lparr>fsm = f\<rparr>)"

text \<open>
  A Go string is given as the sequence of runes a \<^verbatim>\<open>range\<close> loop over it yields (for a
  string that is valid UTF-8, its code points). The loop's index is the byte offset of
  the rune, so it advances by the length of the rune's UTF-8 encoding, and
  \<^verbatim>\<open>len(binaryStr)\<close> is the sum of these lengths.
\<close>

definition RuneLen :: "int \<Rightarrow> nat" where
  "RuneLen r = (if r < 0x80 then 1 else if r < 0x800 then 2 else if r < 0x10000 then 3 else 4)"

definition len_bytes :: "int list \<Rightarrow> nat" where
  "len_bytes binaryStr = sum_list (map RuneLen binaryStr)"

text \<open>The error of \<^verbatim>\<open>ParseInput\<close>: \<^verbatim>\<open>"invalid binary character '%c' at position %d"\<close>.\<close>

datatype parse_error = InvalidBinaryCharacter int nat

text \<open>
  The loop of \<^verbatim>\<open>ParseInput\<close>. \<open>inputs\<close> starts as \<^verbatim>\<open>make([]BinarySymbol, len(binaryStr))\<close>,
  one zero per byte, and each accepted symbol is stored at its byte offset \<open>i\<close>, which
  is always below the length.
\<close>

fun ParseInput_loop ::
  "ModThreeGeneric \<Rightarrow> nat \<Rightarrow> BinarySymbol list \<Rightarrow> int list \<Rightarrow> parse_error + BinarySymbol list" where
  "ParseInput_loop m i inputs [] = Inr inputs"
| "ParseInput_loop m i inputs (char # rest) =
     (let symbol = char in
      if \<not> ValidateInput (fsm m) symbol then Inl (InvalidBinaryCharacter char i)
      else ParseInput_loop m (i + RuneLen char) (inputs[i := symbol]) rest)"

text \<open>The slice returned is \<^verbatim>\<open>nil\<close> (\<open>None\<close>) for the strings \<^verbatim>\<open>""\<close> and \<^verbatim>\<open>"0"\<close>.\<close>

definition ParseInput ::
  "ModThreeGeneric \<Rightarrow> int list \<Rightarrow> parse_error + BinarySymbol list option" where
  "ParseInput m binaryStr =
     (if binaryStr = [] \<or> binaryStr = [Binary0] then Inr None
      else
        (case ParseInput_loop m 0 (replicate (len_bytes binaryStr) 0) binaryStr of
           Inl err \<Rightarrow> Inl err
         | Inr inputs \<Rightarrow> Inr (Some inputs)))"

definition ComputeModThree :: "ModThreeGeneric \<Rightarrow> int list \<Rightarrow> ModThreeGeneric \<times> (int \<times> bool)" where
  "ComputeModThree m binaryStr =
     (case ParseInput m binaryStr of
        Inl err \<Rightarrow> (m, (0, False))
      | Inr None \<Rightarrow> (m, (0, True))
      | Inr (Some inputs) \<Rightarrow>
          (case Execute (fsm m) inputs of
             (f', Some err) \<Rightarrow> (m\<lparr>fsm := f'\<rparr>, (0, False))
           | (f', None) \<Rightarrow> (m\<lparr>fsm := f'\<rparr>, (CurrentState f', True))))"

definition IsDivisibleByThree :: "ModThreeGeneric \<Rightarrow> int list \<Rightarrow> ModThreeGeneric \<times> bool" where
  "IsDivisibleByThree m binaryStr =
     (case ComputeModThree m binaryStr of
        (m', (remainder, ok)) \<Rightarrow> (m', ok \<and> remainder = 0))"

section \<open>Notions used in the statements\<close>

text \<open>
  The transitions of a configuration as a flat list of (source, symbol, destination)
  triples: one for every entry of every inner table.
\<close>

definition transitions_of :: "('s, 'i) FSMConfig \<Rightarrow> ('s \<times> 'i \<times> 's) list" where
  "transitions_of cfg =
     concat (map (\<lambda>(p, inner). map (\<lambda>(x, q). (p, x, q)) inner) (Transitions cfg))"

text \<open>
  The seven conditions under which construction is said to fail, each transition
  condition read over the transitions, that is, over the triples.
\<close>

definition claimed_rejection :: "('s, 'i) FSMConfig \<Rightarrow> bool" where
  "claimed_rejection cfg \<longleftrightarrow>
     States cfg = [] \<or> Alphabet cfg = [] \<or> InitialState cfg \<notin> set (States cfg)
     \<or> (\<exists>q \<in> set (FinalStates cfg). q \<notin> set (States cfg))
     \<or> (\<exists>(p, x, q) \<in> set (transitions_of cfg). p \<notin> set (States cfg))
     \<or> (\<exists>(p, x, q) \<in> set (transitions_of cfg). x \<notin> set (Alphabet cfg))
     \<or> (\<exists>(p, x, q) \<in> set (transitions_of cfg). q \<notin> set (States cfg))"

text \<open>
  The conditions the validator tests. The fifth ranges over the keys of the outer table,
  also over a key whose inner table is empty.
\<close>

definition config_rejected :: "('s, 'i) FSMConfig \<Rightarrow> bool" where
  "config_rejected cfg \<longleftrightarrow>
     States cfg = [] \<or> Alphabet cfg = [] \<or> InitialState cfg \<notin> set (States cfg)
     \<or> (\<exists>q \<in> set (FinalStates cfg). q \<notin> set (States cfg))
     \<or> (\<exists>p \<in> set (map fst (Transitions cfg)). p \<notin> set (States cfg))
     \<or> (\<exists>(p, x, q) \<in> set (transitions_of cfg). x \<notin> set (Alphabet cfg))
     \<or> (\<exists>(p, x, q) \<in> set (transitions_of cfg). q \<notin> set (States cfg))"

text \<open>
  What a construction error reports: its sentinel, the offending value of its message,
  and the condition on the configuration that goes with them.
\<close>

fun reported_condition :: "('s, 'i) FSMConfig \<Rightarrow> ('s, 'i) error \<Rightarrow> bool" where
  "reported_condition cfg (Sentinel k) =
     (k = ErrNoStates \<and> States cfg = []
      \<or> k = ErrNoAlphabet \<and> Alphabet cfg = []
      \<or> k = ErrInvalidInitial \<and> InitialState cfg \<notin> set (States cfg))"
| "reported_condition cfg (Wrap k (Value q)) =
     (k = ErrInvalidFinal \<and> q \<in> set (FinalStates cfg) \<and> q \<notin> set (States cfg))"
| "reported_condition cfg (Wrap k (FromState p)) =
     (k = ErrInvalidTransition \<and> p \<in> set (map fst (Transitions cfg)) \<and> p \<notin> set (States cfg))"
| "reported_condition cfg (Wrap k (InputNotInAlphabet x)) =
     (k = ErrInvalidInput \<and> x \<in> set (map (fst \<circ> snd) (transitions_of cfg))
      \<and> x \<notin> set (Alphabet cfg))"
| "reported_condition cfg (Wrap k (ToState q)) =
     (k = ErrInvalidTransition \<and> q \<in> set (map (snd \<circ> snd) (transitions_of cfg))
      \<and> q \<notin> set (States cfg))"
| "reported_condition cfg (Wrap k (ForState p)) = False"
| "reported_condition cfg (Wrap k (FromStateWithInput p x)) = False"
| "reported_condition cfg (AtPosition i e) = False"

text \<open>
  Configurations of the validation test: the valid one, and three with a single defect in
  the transition table (an undeclared key with an empty table, an undeclared source, an
  undeclared destination).
\<close>

definition cfg_valid :: "(string, char) FSMConfig" where
  "cfg_valid = \<lparr>States = [''A'', ''B''], Alphabet = [CHR ''0'', CHR ''1''],
     InitialState = ''A'', FinalStates = [''B''],
     Transitions = [(''A'', [(CHR ''0'', ''B'')])]\<rparr>"

definition cfg_orphan_key :: "(string, char) FSMConfig" where
  "cfg_orphan_key = \<lparr>States = [''A''], Alphabet = [CHR ''0''],
     InitialState = ''A'', FinalStates = [],
     Transitions = [(''Z'', [])]\<rparr>"

definition cfg_bad_source :: "(string, char) FSMConfig" where
  "cfg_bad_source = \<lparr>States = [''A''], Alphabet = [CHR ''0''],
     InitialState = ''A'', FinalStates = [],
     Transitions = [(''B'', [(CHR ''0'', ''A'')])]\<rparr>"

definition cfg_bad_destination :: "(string, char) FSMConfig" where
  "cfg_bad_destination = \<lparr>States = [''A''], Alphabet = [CHR ''0''],
     InitialState = ''A'', FinalStates = [],
     Transitions = [(''A'', [(CHR ''0'', ''B'')])]\<rparr>"

text \<open>
  \<^verbatim>\<open>Reset()\<close> followed by \<^verbatim>\<open>Process(symbols)\<close> on the same engine.
\<close>

definition Reset_then_Process ::
  "('s, 'i) FSM \<Rightarrow> 'i list \<Rightarrow> ('s, 'i) FSM \<times> ('s, 'i) error option" where
  "Reset_then_Process f symbols = Process (Reset f) symbols"

text \<open>
  A call of one of the four mutating operations, and the engine it leaves behind,
  whether the call returned an error or not. A run state is reachable when a list of
  calls leads to it from the engine \<open>NewFSM\<close> returned.
\<close>

datatype 'i call = CallReset | CallTransition 'i | CallProcess "'i list" | CallExecute "'i list"

fun perform :: "('s, 'i) FSM \<Rightarrow> 'i call \<Rightarrow> ('s, 'i) FSM" where
  "perform f CallReset = Reset f"
| "perform f (CallTransition x) = fst (Transition f x)"
| "perform f (CallProcess xs) = fst (Process f xs)"
| "perform f (CallExecute xs) = fst (Execute f xs)"

text \<open>
  The run-state invariant: the history is not empty, starts with the initial state, ends
  with the current state, and holds declared states only.
\<close>

definition engine_invariant :: "('s, 'i) FSMConfig \<Rightarrow> ('s, 'i) FSM \<Rightarrow> bool" where
  "engine_invariant cfg f \<longleftrightarrow>
     StateHistory f \<noteq> []
     \<and> hd (StateHistory f) = InitialState cfg
     \<and> last (StateHistory f) = CurrentState f
     \<and> set (StateHistory f) \<subseteq> set (States cfg)
     \<and> CurrentState f \<in> set (States cfg)"

text \<open>
  The turnstile of the tests with the table of the locked state only, so that the
  unlocked state has no inner table and the locked state no entry for a push; the engine
  as constructed, and after a coin.
\<close>

definition cfg_half_turnstile :: "(string, char) FSMConfig" where
  "cfg_half_turnstile = \<lparr>States = [''locked'', ''unlocked''], Alphabet = [CHR ''C'', CHR ''P''],
     InitialState = ''locked'', FinalStates = [''unlocked''],
     Transitions = [(''locked'', [(CHR ''C'', ''unlocked'')])]\<rparr>"

definition turnstile_locked :: "(string, char) FSM" where
  "turnstile_locked = \<lparr>config = cfg_half_turnstile, currentState = ''locked'',
     stateHistory = [''locked''], alphabetSet = {CHR ''C'', CHR ''P''},
     finalStateSet = {''unlocked''}\<rparr>"

definition turnstile_unlocked :: "(string, char) FSM" where
  "turnstile_unlocked = \<lparr>config = cfg_half_turnstile, currentState = ''unlocked'',
     stateHistory = [''locked'', ''unlocked''], alphabetSet = {CHR ''C'', CHR ''P''},
     finalStateSet = {''unlocked''}\<rparr>"

text \<open>
  An automaton with no final state.
\<close>

definition cfg_no_final :: "(string, char) FSMConfig" where
  "cfg_no_final = \<lparr>States = [''A''], Alphabet = [CHR ''0''],
     InitialState = ''A'', FinalStates = [],
     Transitions = [(''A'', [(CHR ''0'', ''A'')])]\<rparr>"

text \<open>
  The value of a string of binary digits read as a numeral, most significant digit
  first; \<open>binary_value_from v\<close> continues from the value \<open>v\<close> of the digits already read.
  The empty string has value 0.
\<close>

definition binary_value_from :: "nat \<Rightarrow> int list \<Rightarrow> nat" where
  "binary_value_from v s = foldl (\<lambda>v c. 2 * v + (if c = Binary1 then 1 else 0)) v s"

definition binary_value :: "int list \<Rightarrow> nat" where
  "binary_value s = binary_value_from 0 s"

text \<open>The runes of an ASCII literal.\<close>

definition runes :: "string \<Rightarrow> int list" where
  "runes s = map of_char s"

text \<open>The wrapper as \<open>NewModThreeGeneric\<close> builds it, and in a later run state.\<close>

definition modthree_engine :: "ModState \<Rightarrow> ModState list \<Rightarrow> ModThreeGeneric" where
  "modthree_engine cur hist =
     \<lparr>fsm = \<lparr>config = modthree_config, currentState = cur, stateHistory = hist,
             alphabetSet = {Binary0, Binary1},
             finalStateSet = {ModState0, ModState1, ModState2}\<rparr>\<rparr>"

section \<open>Verification\<close>

subsection \<open>Construction\<close>

lemma validateFinalStates_None:
  "validateFinalStates S xs = None \<longleftrightarrow> set xs \<subseteq> S"
  by (induction xs) auto

lemma validateFinalStates_Some:
  "validateFinalStates S xs = Some e \<Longrightarrow>
     \<exists>q \<in> set xs. q \<notin> S \<and> e = Wrap ErrInvalidFinal (Value q)"
  by (induction xs) (auto split: if_splits)

lemma validateInner_None:
  "validateInner S A inner = None \<longleftrightarrow> (\<forall>(x, q) \<in> set inner. x \<in> A \<and> q \<in> S)"
  by (induction S A inner rule: validateInner.induct) auto

lemma validateInner_Some:
  "validateInner S A inner = Some e \<Longrightarrow>
     (\<exists>(x, q) \<in> set inner. x \<notin> A \<and> e = Wrap ErrInvalidInput (InputNotInAlphabet x))
     \<or> (\<exists>(x, q) \<in> set inner. q \<notin> S \<and> e = Wrap ErrInvalidTransition (ToState q))"
  by (induction S A inner rule: validateInner.induct) (auto split: if_splits)

lemma validateInner_Some_not_all:
  "validateInner S A inner = Some e \<Longrightarrow> \<not> (\<forall>(x, q) \<in> set inner. x \<in> A \<and> q \<in> S)"
  using validateInner_None[of S A inner] by simp

lemma validateTransitions_None:
  "validateTransitions S A ts = None \<longleftrightarrow>
     (\<forall>(p, inner) \<in> set ts. p \<in> S \<and> (\<forall>(x, q) \<in> set inner. x \<in> A \<and> q \<in> S))"
proof (induction S A ts rule: validateTransitions.induct)
  case (1 S A)
  show ?case by simp
next
  case (2 S A p inner rest)
  show ?case
  proof (cases "p \<in> S")
    case False
    then show ?thesis by simp
  next
    case True
    show ?thesis
    proof (cases "validateInner S A inner")
      case None
      with True 2 validateInner_None[of S A inner] show ?thesis by simp
    next
      case (Some e)
      with True validateInner_Some_not_all[OF Some] show ?thesis by simp
    qed
  qed
qed

lemma validateTransitions_Some:
  "validateTransitions S A ts = Some e \<Longrightarrow>
     (\<exists>(p, inner) \<in> set ts. p \<notin> S \<and> e = Wrap ErrInvalidTransition (FromState p))
     \<or> (\<exists>(p, inner) \<in> set ts. \<exists>(x, q) \<in> set inner.
           x \<notin> A \<and> e = Wrap ErrInvalidInput (InputNotInAlphabet x))
     \<or> (\<exists>(p, inner) \<in> set ts. \<exists>(x, q) \<in> set inner.
           q \<notin> S \<and> e = Wrap ErrInvalidTransition (ToState q))"
proof (induction S A ts rule: validateTransitions.induct)
  case (1 S A)
  then show ?case by simp
next
  case (2 S A p inner rest)
  show ?case
  proof (cases "p \<in> S")
    case False
    with 2 show ?thesis by auto
  next
    case True
    show ?thesis
    proof (cases "validateInner S A inner")
      case None
      with True 2 show ?thesis by auto
    next
      case (Some e')
      with True 2 have "e' = e" by simp
      with Some validateInner_Some[of S A inner e] show ?thesis by auto
    qed
  qed
qed

lemma set_transitions_of:
  "(p, x, q) \<in> set (transitions_of cfg) \<longleftrightarrow>
     (\<exists>inner. (p, inner) \<in> set (Transitions cfg) \<and> (x, q) \<in> set inner)"
  by (auto simp: transitions_of_def)

lemma transitions_ok_iff:
  "(\<forall>(p, inner) \<in> set (Transitions cfg). p \<in> S \<and> (\<forall>(x, q) \<in> set inner. x \<in> A \<and> q \<in> Q))
   \<longleftrightarrow> (\<forall>p \<in> set (map fst (Transitions cfg)). p \<in> S)
       \<and> (\<forall>(p, x, q) \<in> set (transitions_of cfg). x \<in> A)
       \<and> (\<forall>(p, x, q) \<in> set (transitions_of cfg). q \<in> Q)"
  (is "?L \<longleftrightarrow> ?R")
proof
  assume ?L
  then show ?R by (fastforce simp: set_transitions_of)
next
  assume r: ?R
  show ?L
  proof (clarify, intro conjI ballI)
    fix p inner assume m: "(p, inner) \<in> set (Transitions cfg)"
    with r show "p \<in> S" by force
    fix xq assume xq: "xq \<in> set inner"
    obtain x q where [simp]: "xq = (x, q)" by (cases xq)
    from xq m have "(p, x, q) \<in> set (transitions_of cfg)"
      unfolding set_transitions_of by auto
    with r show "case xq of (x, q) \<Rightarrow> x \<in> A \<and> q \<in> Q"
      by fastforce
  qed
qed

lemma config_rejected_alt:
  "config_rejected cfg \<longleftrightarrow>
     States cfg = [] \<or> Alphabet cfg = [] \<or> InitialState cfg \<notin> set (States cfg)
     \<or> \<not> set (FinalStates cfg) \<subseteq> set (States cfg)
     \<or> \<not> (\<forall>(p, inner) \<in> set (Transitions cfg). p \<in> set (States cfg)
            \<and> (\<forall>(x, q) \<in> set inner. x \<in> set (Alphabet cfg) \<and> q \<in> set (States cfg)))"
  unfolding config_rejected_def transitions_ok_iff
  by (simp add: subset_iff case_prod_unfold) blast

lemma validateAndBuildLookupSets_Inr:
  "validateAndBuildLookupSets cfg = Inr r \<longleftrightarrow>
     \<not> config_rejected cfg \<and> r = (set (Alphabet cfg), set (FinalStates cfg))"
proof (cases "validateFinalStates (set (States cfg)) (FinalStates cfg) :: ('a, 'b) error option")
  case None
  then have fin: "set (FinalStates cfg) \<subseteq> set (States cfg)"
    by (simp add: validateFinalStates_None)
  show ?thesis
  proof (cases "validateTransitions (set (States cfg)) (set (Alphabet cfg)) (Transitions cfg)")
    case None
    with \<open>validateFinalStates (set (States cfg)) (FinalStates cfg) = None\<close> fin
      validateTransitions_None[of "set (States cfg)" "set (Alphabet cfg)" "Transitions cfg"]
    show ?thesis
      unfolding validateAndBuildLookupSets_def config_rejected_alt Let_def by auto
  next
    case (Some e)
    with validateTransitions_None[of "set (States cfg)" "set (Alphabet cfg)" "Transitions cfg"]
    show ?thesis
      unfolding validateAndBuildLookupSets_def config_rejected_alt Let_def
      by (auto split: option.splits)
  qed
next
  case (Some e)
  then have "\<not> set (FinalStates cfg) \<subseteq> set (States cfg)"
    using validateFinalStates_None[of "set (States cfg)" "FinalStates cfg"]
    by (metis option.distinct(1))
  moreover from this have "FinalStates cfg \<noteq> []" by auto
  ultimately show ?thesis using Some
    unfolding validateAndBuildLookupSets_def config_rejected_alt Let_def by simp
qed

lemma validateAndBuildLookupSets_Inl:
  assumes "validateAndBuildLookupSets cfg = Inl e"
  shows "reported_condition cfg e"
proof (cases "States cfg = [] \<or> Alphabet cfg = [] \<or> InitialState cfg \<notin> set (States cfg)")
  case True
  with assms show ?thesis
    by (auto simp: validateAndBuildLookupSets_def Let_def split: if_splits)
next
  case False
  note basic = this
  show ?thesis
  proof (cases "validateFinalStates (set (States cfg)) (FinalStates cfg) :: ('a, 'b) error option")
    case (Some e')
    have "FinalStates cfg \<noteq> []" using Some by auto
    with assms basic Some have "e' = e"
      by (simp add: validateAndBuildLookupSets_def Let_def)
    with validateFinalStates_Some[OF Some] show ?thesis by auto
  next
    case None
    with assms basic
    have vt: "validateTransitions (set (States cfg)) (set (Alphabet cfg)) (Transitions cfg) = Some e"
      by (auto simp: validateAndBuildLookupSets_def Let_def split: option.splits if_splits)
    from validateTransitions_Some[OF vt] show ?thesis
    proof (elim disjE bexE)
      fix pi assume m: "pi \<in> set (Transitions cfg)"
        and h: "case pi of (p, inner) \<Rightarrow>
                  p \<notin> set (States cfg) \<and> e = Wrap ErrInvalidTransition (FromState p)"
      obtain p inner where pi: "pi = (p, inner)" by (cases pi)
      from m pi have "p \<in> set (map fst (Transitions cfg))" by force
      with h pi show ?thesis by simp
    next
      fix pi assume m: "pi \<in> set (Transitions cfg)"
        and h: "case pi of (p, inner) \<Rightarrow> \<exists>(x, q) \<in> set inner.
                  x \<notin> set (Alphabet cfg) \<and> e = Wrap ErrInvalidInput (InputNotInAlphabet x)"
      obtain p inner where pi: "pi = (p, inner)" by (cases pi)
      from h pi obtain x q where xq: "(x, q) \<in> set inner" "x \<notin> set (Alphabet cfg)"
        "e = Wrap ErrInvalidInput (InputNotInAlphabet x)" by auto
      from m pi xq(1) have "(p, x, q) \<in> set (transitions_of cfg)"
        unfolding set_transitions_of by auto
      then have "x \<in> set (map (fst \<circ> snd) (transitions_of cfg))" by force
      with xq show ?thesis by simp
    next
      fix pi assume m: "pi \<in> set (Transitions cfg)"
        and h: "case pi of (p, inner) \<Rightarrow> \<exists>(x, q) \<in> set inner.
                  q \<notin> set (States cfg) \<and> e = Wrap ErrInvalidTransition (ToState q)"
      obtain p inner where pi: "pi = (p, inner)" by (cases pi)
      from h pi obtain x q where xq: "(x, q) \<in> set inner" "q \<notin> set (States cfg)"
        "e = Wrap ErrInvalidTransition (ToState q)" by auto
      from m pi xq(1) have "(p, x, q) \<in> set (transitions_of cfg)"
        unfolding set_transitions_of by auto
      then have "q \<in> set (map (snd \<circ> snd) (transitions_of cfg))" by force
      with xq show ?thesis by simp
    qed
  qed
qed

text \<open>
  Claim C1, as amended. \<open>NewFSM\<close> returns an error and no engine exactly when the
  configuration is rejected: \<open>States\<close> is empty, or \<open>Alphabet\<close> is empty, or
  \<open>InitialState\<close> is not in \<open>States\<close>, or some member of \<open>FinalStates\<close> is not in
  \<open>States\<close>, or some key of the outer transition table is not in \<open>States\<close> (whether or
  not its inner table has an entry), or some transition's symbol is not in \<open>Alphabet\<close>,
  or some transition's destination is not in \<open>States\<close>. The error returned names a
  condition that holds, through one of six sentinels: \<open>ErrNoStates\<close>, \<open>ErrNoAlphabet\<close>,
  \<open>ErrInvalidInitial\<close>, \<open>ErrInvalidFinal\<close> (with the state), \<open>ErrInvalidInput\<close> (with
  the symbol) and \<open>ErrInvalidTransition\<close>, which serves both an undeclared source key
  (message "from state") and an undeclared destination (message "to state"). On success
  the engine holds the configuration, its current state is \<open>InitialState\<close>, its history
  is \<open>[InitialState]\<close>, and its lookup sets are those of \<open>Alphabet\<close> and \<open>FinalStates\<close>.
\<close>

theorem NewFSM_rejects_iff:
  "(isl (NewFSM cfg) \<longleftrightarrow> config_rejected cfg)
   \<and> (case NewFSM cfg of
          Inl err \<Rightarrow> reported_condition cfg err
        | Inr f \<Rightarrow>
            f = \<lparr>config = cfg, currentState = InitialState cfg,
                 stateHistory = [InitialState cfg],
                 alphabetSet = set (Alphabet cfg), finalStateSet = set (FinalStates cfg)\<rparr>)"
proof (cases "validateAndBuildLookupSets cfg")
  case (Inl e)
  then have "config_rejected cfg"
    using validateAndBuildLookupSets_Inr[of cfg] by (metis sum.distinct(1))
  with Inl validateAndBuildLookupSets_Inl[OF Inl] show ?thesis
    by (simp add: NewFSM_def)
next
  case (Inr r)
  with validateAndBuildLookupSets_Inr[of cfg r] show ?thesis
    by (simp add: NewFSM_def)
qed

text \<open>
  The theorem at the valid configuration of the validation test, which is accepted, and
  at a configuration whose table has an undeclared key, which is rejected.
\<close>

theorem NewFSM_rejects_iff_witness:
  "\<not> config_rejected cfg_valid
   \<and> NewFSM cfg_valid = Inr \<lparr>config = cfg_valid, currentState = ''A'',
         stateHistory = [''A''], alphabetSet = {CHR ''0'', CHR ''1''},
         finalStateSet = {''B''}\<rparr>
   \<and> config_rejected cfg_orphan_key
   \<and> NewFSM cfg_orphan_key = Inl (Wrap ErrInvalidTransition (FromState ''Z''))
   \<and> reported_condition cfg_orphan_key (Wrap ErrInvalidTransition (FromState ''Z''))"
proof -
  have ok: "NewFSM cfg_valid = Inr \<lparr>config = cfg_valid, currentState = ''A'',
         stateHistory = [''A''], alphabetSet = {CHR ''0'', CHR ''1''},
         finalStateSet = {''B''}\<rparr>"
    by (simp add: NewFSM_def validateAndBuildLookupSets_def cfg_valid_def)
  have bad: "NewFSM cfg_orphan_key = Inl (Wrap ErrInvalidTransition (FromState ''Z''))"
    by (simp add: NewFSM_def validateAndBuildLookupSets_def cfg_orphan_key_def)
  from NewFSM_rejects_iff[of cfg_valid] NewFSM_rejects_iff[of cfg_orphan_key] ok bad
  show ?thesis by simp
qed

text \<open>
  Claim C1 as stated fails. A table with the undeclared key \<open>Z\<close> and an empty inner
  table has no transition at all, so none of the seven stated conditions holds, yet
  \<open>NewFSM\<close> rejects it: the outer loop checks the key before it looks at the inner
  table. And the undeclared source and the undeclared destination are not told apart
  by kind: both carry the sentinel \<open>ErrInvalidTransition\<close>.
\<close>

theorem NewFSM_claim_counterexample:
  "NewFSM cfg_orphan_key = Inl (Wrap ErrInvalidTransition (FromState ''Z''))
   \<and> \<not> claimed_rejection cfg_orphan_key
   \<and> NewFSM cfg_bad_source = Inl (Wrap ErrInvalidTransition (FromState ''B''))
   \<and> NewFSM cfg_bad_destination = Inl (Wrap ErrInvalidTransition (ToState ''B''))
   \<and> sentinel_of (Wrap ErrInvalidTransition (FromState ''B'') :: (string, char) error)
       = sentinel_of (Wrap ErrInvalidTransition (ToState ''B'') :: (string, char) error)"
  by (simp add: NewFSM_def validateAndBuildLookupSets_def cfg_orphan_key_def
        cfg_bad_source_def cfg_bad_destination_def claimed_rejection_def transitions_of_def)

subsection \<open>Single transitions\<close>

text \<open>
  Claim C2. If the table has no inner table for the current state, \<open>Transition\<close>
  returns the "no transition defined" error naming the state; if the inner table has
  no entry for the symbol, the error names the state and the symbol; in both cases
  the engine is returned as it was. If the entry exists and maps to \<open>t\<close>,
  \<open>Transition\<close> returns no error, the current state is \<open>t\<close> and \<open>t\<close> is appended to
  the history. This holds for every engine, validated or not.
\<close>

theorem Transition_cases:
  "(map_of (Transitions (config f)) (currentState f) = None \<longrightarrow>
      Transition f x = (f, Some (Wrap ErrNoTransition (ForState (currentState f)))))
   \<and> (\<forall>inner. map_of (Transitions (config f)) (currentState f) = Some inner
                \<and> map_of inner x = None \<longrightarrow>
      Transition f x = (f, Some (Wrap ErrNoTransition (FromStateWithInput (currentState f) x))))
   \<and> (\<forall>inner t. map_of (Transitions (config f)) (currentState f) = Some inner
                \<and> map_of inner x = Some t \<longrightarrow>
      Transition f x = (f\<lparr>currentState := t, stateHistory := stateHistory f @ [t]\<rparr>, None))"
  by (simp add: Transition_def)

text \<open>
  The three cases on the turnstile of the tests: a state without inner table, a symbol
  without entry, and a defined transition.
\<close>

theorem Transition_cases_witness:
  "Transition turnstile_unlocked (CHR ''P'') =
     (turnstile_unlocked, Some (Wrap ErrNoTransition (ForState ''unlocked'')))
   \<and> Transition turnstile_locked (CHR ''P'') =
     (turnstile_locked, Some (Wrap ErrNoTransition (FromStateWithInput ''locked'' (CHR ''P''))))
   \<and> Transition turnstile_locked (CHR ''C'') = (turnstile_unlocked, None)"
  using Transition_cases[of turnstile_unlocked "CHR ''P''"]
    Transition_cases[of turnstile_locked "CHR ''P''"]
    Transition_cases[of turnstile_locked "CHR ''C''"]
  by (simp add: turnstile_locked_def turnstile_unlocked_def cfg_half_turnstile_def)

subsection \<open>Processing a sequence\<close>

lemma Transition_failed_unchanged:
  "snd (Transition f x) = Some e \<Longrightarrow> fst (Transition f x) = f"
  by (auto simp: Transition_def split: option.splits)

lemma Process_loop_append:
  "Process_loop i f (xs @ ys) =
     (case Process_loop i f xs of
        (g, None) \<Rightarrow> Process_loop (i + length xs) g ys
      | (g, Some e) \<Rightarrow> (g, Some e))"
proof (induction xs arbitrary: i f)
  case Nil
  show ?case by simp
next
  case (Cons x xs)
  obtain g r where t: "Transition f x = (g, r)" by (cases "Transition f x")
  show ?case
  proof (cases r)
    case None
    with t Cons[of "Suc i" g] show ?thesis
      by (simp split: prod.splits option.splits)
  next
    case (Some e)
    with t show ?thesis by simp
  qed
qed

lemma Process_append:
  "Process f (xs @ ys) =
     (case Process f xs of
        (g, None) \<Rightarrow> Process_loop (length xs) g ys
      | (g, Some e) \<Rightarrow> (g, Some e))"
  by (simp add: Process_def Process_loop_append split: prod.splits option.splits)

lemma Process_loop_single:
  "Process_loop i g (x # ys) =
     (case Transition g x of
        (g', Some e) \<Rightarrow> (g', Some (AtPosition i e))
      | (g', None) \<Rightarrow> Process_loop (Suc i) g' ys)"
  by simp

lemma Process_first_failure:
  assumes k: "k < length xs"
    and pre: "Process f (take k xs) = (g, None)"
    and fail: "snd (Transition g (xs ! k)) = Some e"
  shows "Process f xs = (g, Some (AtPosition k e))"
proof -
  have split: "xs = take k xs @ (xs ! k) # drop (Suc k) xs"
    using k by (simp add: id_take_nth_drop)
  from fail Transition_failed_unchanged[OF fail]
  have t: "Transition g (xs ! k) = (g, Some e)"
    by (cases "Transition g (xs ! k)") simp
  have len: "length (take k xs) = k" using k by simp
  have "Process f (take k xs @ (xs ! k) # drop (Suc k) xs)
        = Process_loop k g ((xs ! k) # drop (Suc k) xs)"
    unfolding Process_append pre len by simp
  also have "\<dots> = (g, Some (AtPosition k e))"
    using t by simp
  finally show ?thesis using split by metis
qed

lemma Process_success_prefix:
  "Process f (xs @ ys) = (g, None) \<Longrightarrow> \<exists>h. Process f xs = (h, None)"
  by (cases "Process f xs") (auto simp: Process_append split: option.splits)

lemma Process_snoc_success:
  "Process f xs = (g, None) \<Longrightarrow>
     Process f (xs @ [x]) =
       (case Transition g x of
          (g', Some e) \<Rightarrow> (g', Some (AtPosition (length xs) e))
        | (g', None) \<Rightarrow> (g', None))"
  by (simp add: Process_append split: prod.splits option.splits)

lemma Process_snoc_success_iff:
  "snd (Process f (xs @ [x])) = None \<longleftrightarrow>
     snd (Process f xs) = None \<and> snd (Transition (fst (Process f xs)) x) = None"
proof -
  obtain g r where p: "Process f xs = (g, r)" by (cases "Process f xs")
  obtain g' r' where t: "Transition g x = (g', r')" by (cases "Transition g x")
  show ?thesis
  proof (cases r)
    case None
    with p t show ?thesis by (cases r') (simp_all add: Process_snoc_success)
  next
    case (Some e)
    with p show ?thesis by (simp add: Process_append)
  qed
qed

lemma Process_success_iff:
  "snd (Process f xs) = None \<longleftrightarrow>
     (\<forall>k < length xs. snd (Transition (fst (Process f (take k xs))) (xs ! k)) = None)"
proof (induction xs rule: rev_induct)
  case Nil
  show ?case by (simp add: Process_def)
next
  case (snoc x xs)
  have "(\<forall>k < length (xs @ [x]).
           snd (Transition (fst (Process f (take k (xs @ [x])))) ((xs @ [x]) ! k)) = None)
        \<longleftrightarrow> (\<forall>k < length xs. snd (Transition (fst (Process f (take k xs))) (xs ! k)) = None)
            \<and> snd (Transition (fst (Process f xs)) x) = None"
    by (simp add: All_less_Suc nth_append conj_commute)
  with snoc show ?case
    unfolding Process_snoc_success_iff by blast
qed

lemma Process_success_foldl:
  "Process f xs = (g, None) \<Longrightarrow> g = foldl (\<lambda>h x. fst (Transition h x)) f xs"
proof (induction xs arbitrary: g rule: rev_induct)
  case Nil
  then show ?case by (simp add: Process_def)
next
  case (snoc x xs)
  from Process_success_prefix[OF snoc.prems] obtain h where h: "Process f xs = (h, None)" ..
  with snoc.IH have "h = foldl (\<lambda>h x. fst (Transition h x)) f xs" by simp
  moreover from snoc.prems h have "g = fst (Transition h x)"
    by (auto simp: Process_snoc_success split: prod.splits option.splits)
  ultimately show ?case by simp
qed

text \<open>
  Claim C3. \<open>Process\<close> of the empty sequence returns the engine unchanged and no error.
  It succeeds iff each transition succeeds on the engine its predecessors left; on
  success the engine is the left-to-right fold of \<open>Transition\<close> from the engine given
  (no reset). If the first \<open>k\<close> symbols succeed, leaving engine \<open>g\<close>, and the
  transition on symbol \<open>k\<close> fails with \<open>e\<close>, then \<open>Process\<close> returns \<open>g\<close>, with those
  \<open>k\<close> transitions applied, and the error \<open>e\<close> wrapped with the position \<open>k\<close>.
\<close>

theorem Process_in_order:
  "Process f [] = (f, None)
   \<and> (snd (Process f xs) = None \<longleftrightarrow>
        (\<forall>k < length xs. snd (Transition (fst (Process f (take k xs))) (xs ! k)) = None))
   \<and> (\<forall>g. Process f xs = (g, None) \<longrightarrow> g = foldl (\<lambda>h x. fst (Transition h x)) f xs)
   \<and> (\<forall>k g e. k < length xs \<and> Process f (take k xs) = (g, None)
                \<and> snd (Transition g (xs ! k)) = Some e \<longrightarrow>
        Process f xs = (g, Some (AtPosition k e)))"
proof (intro conjI allI impI)
  show "Process f [] = (f, None)" by (simp add: Process_def)
  show "snd (Process f xs) = None \<longleftrightarrow>
        (\<forall>k < length xs. snd (Transition (fst (Process f (take k xs))) (xs ! k)) = None)"
    by (rule Process_success_iff)
  show "g = foldl (\<lambda>h x. fst (Transition h x)) f xs" if "Process f xs = (g, None)" for g
    using that by (rule Process_success_foldl)
  show "Process f xs = (g, Some (AtPosition k e))"
    if "k < length xs \<and> Process f (take k xs) = (g, None)
        \<and> snd (Transition g (xs ! k)) = Some e" for k g e
    using that Process_first_failure[of k xs f g e] by blast
qed

text \<open>
  On the turnstile with only the locked state's table: the first symbol succeeds and the
  second fails at position 1, leaving the history at two states.
\<close>

theorem Process_in_order_witness:
  "Process turnstile_locked [CHR ''C'', CHR ''P''] =
     (turnstile_unlocked, Some (AtPosition 1 (Wrap ErrNoTransition (ForState ''unlocked''))))
   \<and> Process turnstile_locked [] = (turnstile_locked, None)"
proof -
  have pre: "Process turnstile_locked (take 1 [CHR ''C'', CHR ''P'']) = (turnstile_unlocked, None)"
    by (simp add: Process_def Transition_def turnstile_locked_def turnstile_unlocked_def
          cfg_half_turnstile_def)
  have fail: "snd (Transition turnstile_unlocked ([CHR ''C'', CHR ''P''] ! 1))
      = Some (Wrap ErrNoTransition (ForState ''unlocked''))"
    by (simp add: Transition_def turnstile_unlocked_def cfg_half_turnstile_def)
  from Process_in_order[of turnstile_locked "[CHR ''C'', CHR ''P'']"] pre fail
  have "Process turnstile_locked [CHR ''C'', CHR ''P''] =
     (turnstile_unlocked, Some (AtPosition 1 (Wrap ErrNoTransition (ForState ''unlocked''))))"
    by (metis One_nat_def length_Cons lessI list.size(3))
  moreover from Process_in_order[of turnstile_locked "[]"]
  have "Process turnstile_locked [] = (turnstile_locked, None)" by simp
  ultimately show ?thesis by simp
qed

subsection \<open>Execute and Reset\<close>

text \<open>
  Claim C4. \<open>Execute\<close> returns the same error (or none) and the same engine, hence the
  same current state and history, as \<open>Reset\<close> followed by \<open>Process\<close>.
\<close>

theorem Execute_is_Reset_then_Process:
  "Execute f symbols = Reset_then_Process f symbols"
  by (simp add: Execute_def Reset_then_Process_def)

text \<open>
  Claim C6. \<open>Reset\<close> has no error result. After it the current state is the
  configuration's \<open>InitialState\<close> and the history is \<open>[InitialState]\<close>, whatever the
  run state was; the configuration is untouched. Resetting twice is resetting once, and
  so is any positive number of consecutive resets.
\<close>

theorem Reset_idempotent:
  "currentState (Reset f) = InitialState (config f)
   \<and> stateHistory (Reset f) = [InitialState (config f)]
   \<and> config (Reset f) = config f
   \<and> Reset (Reset f) = Reset f
   \<and> (Reset ^^ Suc n) f = Reset f"
proof -
  have idem: "Reset (Reset g) = Reset g" for g :: "('a, 'b) FSM"
    by (simp add: Reset_def)
  have "(Reset ^^ Suc n) f = Reset f"
    by (induction n) (simp_all add: idem)
  then show ?thesis by (simp add: Reset_def)
qed

subsection \<open>What no operation changes\<close>

lemma Transition_static:
  "config (fst (Transition f x)) = config f
   \<and> alphabetSet (fst (Transition f x)) = alphabetSet f
   \<and> finalStateSet (fst (Transition f x)) = finalStateSet f"
  by (simp add: Transition_def split: option.splits)

lemma Process_loop_static:
  "config (fst (Process_loop i f xs)) = config f
   \<and> alphabetSet (fst (Process_loop i f xs)) = alphabetSet f
   \<and> finalStateSet (fst (Process_loop i f xs)) = finalStateSet f"
proof (induction xs arbitrary: i f)
  case Nil
  show ?case by simp
next
  case (Cons x xs)
  obtain g r where t: "Transition f x = (g, r)" by (cases "Transition f x")
  with Transition_static[of f x] have g: "config g = config f"
    "alphabetSet g = alphabetSet f" "finalStateSet g = finalStateSet f" by simp_all
  show ?case
  proof (cases r)
    case None
    with t g Cons[of "Suc i" g] show ?thesis by simp
  next
    case (Some e)
    with t g show ?thesis by simp
  qed
qed

lemma Reset_static:
  "config (Reset f) = config f \<and> alphabetSet (Reset f) = alphabetSet f
   \<and> finalStateSet (Reset f) = finalStateSet f"
  by (simp add: Reset_def)

lemma perform_static:
  "config (perform f c) = config f \<and> alphabetSet (perform f c) = alphabetSet f
   \<and> finalStateSet (perform f c) = finalStateSet f"
  by (cases c)
     (simp_all add: Reset_static Transition_static Process_loop_static Process_def Execute_def)

lemma run_static:
  "config (foldl perform f cs) = config f \<and> alphabetSet (foldl perform f cs) = alphabetSet f
   \<and> finalStateSet (foldl perform f cs) = finalStateSet f"
  by (induction cs arbitrary: f) (simp_all add: perform_static)

lemma NewFSM_Inr:
  assumes "NewFSM cfg = Inr f"
  shows "f = \<lparr>config = cfg, currentState = InitialState cfg,
              stateHistory = [InitialState cfg],
              alphabetSet = set (Alphabet cfg), finalStateSet = set (FinalStates cfg)\<rparr>"
    and "InitialState cfg \<in> set (States cfg)"
    and "\<forall>(p, inner) \<in> set (Transitions cfg). \<forall>(x, q) \<in> set inner. q \<in> set (States cfg)"
proof -
  obtain r where r: "validateAndBuildLookupSets cfg = Inr r"
    using assms by (cases "validateAndBuildLookupSets cfg") (simp_all add: NewFSM_def)
  then have ok: "\<not> config_rejected cfg" and rv: "r = (set (Alphabet cfg), set (FinalStates cfg))"
    using validateAndBuildLookupSets_Inr[of cfg r] by simp_all
  from assms r rv show "f = \<lparr>config = cfg, currentState = InitialState cfg,
              stateHistory = [InitialState cfg],
              alphabetSet = set (Alphabet cfg), finalStateSet = set (FinalStates cfg)\<rparr>"
    by (simp add: NewFSM_def)
  from ok show "InitialState cfg \<in> set (States cfg)"
    by (simp add: config_rejected_alt)
  from ok show "\<forall>(p, inner) \<in> set (Transitions cfg). \<forall>(x, q) \<in> set inner. q \<in> set (States cfg)"
    unfolding config_rejected_alt by fastforce
qed

subsection \<open>The run-state invariant\<close>

lemma Transition_invariant:
  assumes cfg: "config f = cfg"
    and dest: "\<forall>(p, inner) \<in> set (Transitions cfg). \<forall>(x, q) \<in> set inner. q \<in> set (States cfg)"
    and inv: "engine_invariant cfg f"
  shows "engine_invariant cfg (fst (Transition f x))"
proof (cases "map_of (Transitions (config f)) (currentState f)")
  case None
  with inv show ?thesis by (simp add: Transition_def)
next
  case (Some inner)
  note s = this
  show ?thesis
  proof (cases "map_of inner x")
    case None
    with s inv show ?thesis by (simp add: Transition_def)
  next
    case (Some t)
    from s cfg have "(currentState f, inner) \<in> set (Transitions cfg)"
      by (auto dest: map_of_SomeD)
    moreover from Some have "(x, t) \<in> set inner" by (rule map_of_SomeD)
    ultimately have "t \<in> set (States cfg)" using dest by fastforce
    with s Some inv show ?thesis
      by (simp add: Transition_def engine_invariant_def StateHistory_def CurrentState_def)
  qed
qed

lemma Process_loop_invariant:
  assumes dest: "\<forall>(p, inner) \<in> set (Transitions cfg). \<forall>(x, q) \<in> set inner. q \<in> set (States cfg)"
  shows "config f = cfg \<Longrightarrow> engine_invariant cfg f \<Longrightarrow>
         engine_invariant cfg (fst (Process_loop i f xs))"
proof (induction xs arbitrary: i f)
  case Nil
  then show ?case by simp
next
  case (Cons x xs)
  obtain g r where t: "Transition f x = (g, r)" by (cases "Transition f x")
  from Transition_invariant[OF Cons.prems(1) dest Cons.prems(2), of x] t
  have ig: "engine_invariant cfg g" by simp
  from Transition_static[of f x] t Cons.prems(1) have cg: "config g = cfg" by simp
  show ?case
  proof (cases r)
    case None
    with t Cons.IH[OF cg ig, of "Suc i"] show ?thesis by simp
  next
    case (Some e)
    with t ig show ?thesis by simp
  qed
qed

lemma Reset_invariant:
  "config f = cfg \<Longrightarrow> InitialState cfg \<in> set (States cfg) \<Longrightarrow> engine_invariant cfg (Reset f)"
  by (simp add: Reset_def engine_invariant_def StateHistory_def CurrentState_def)

lemma perform_invariant:
  assumes dest: "\<forall>(p, inner) \<in> set (Transitions cfg). \<forall>(x, q) \<in> set inner. q \<in> set (States cfg)"
    and init: "InitialState cfg \<in> set (States cfg)"
    and cfg: "config f = cfg" and inv: "engine_invariant cfg f"
  shows "engine_invariant cfg (perform f c)"
proof (cases c)
  case CallReset
  with Reset_invariant[OF cfg init] show ?thesis by simp
next
  case (CallTransition x)
  with Transition_invariant[OF cfg dest inv] show ?thesis by simp
next
  case (CallProcess xs)
  with Process_loop_invariant[OF dest cfg inv] show ?thesis by (simp add: Process_def)
next
  case (CallExecute xs)
  have "config (Reset f) = cfg" using cfg by (simp add: Reset_static)
  from Process_loop_invariant[OF dest this Reset_invariant[OF cfg init]] CallExecute
  show ?thesis by (simp add: Execute_def Process_def)
qed

lemma run_invariant:
  assumes dest: "\<forall>(p, inner) \<in> set (Transitions cfg). \<forall>(x, q) \<in> set inner. q \<in> set (States cfg)"
    and init: "InitialState cfg \<in> set (States cfg)"
  shows "config f = cfg \<Longrightarrow> engine_invariant cfg f \<Longrightarrow>
         engine_invariant cfg (foldl perform f cs)"
proof (induction cs arbitrary: f)
  case Nil
  then show ?case by simp
next
  case (Cons c cs)
  have "config (perform f c) = cfg" using Cons.prems(1) by (simp add: perform_static)
  from Cons.IH[OF this perform_invariant[OF dest init Cons.prems]] show ?case by simp
qed

text \<open>
  Claim C10. After construction by \<open>NewFSM\<close> and after any sequence of \<open>Reset\<close>,
  \<open>Transition\<close>, \<open>Process\<close> and \<open>Execute\<close> calls (the empty sequence is the
  constructed engine; failed calls are included) the history is not empty, its first
  element is \<open>InitialState\<close>, its last element is the current state, and all its
  elements, and the current state, are members of \<open>States\<close>.
\<close>

theorem engine_invariant_preserved:
  assumes "NewFSM cfg = Inr f0"
  shows "engine_invariant cfg (foldl perform f0 calls)"
proof -
  note n = NewFSM_Inr[OF assms]
  have c0: "config f0 = cfg" by (simp add: n(1))
  have i0: "engine_invariant cfg f0"
    using n(2) by (simp add: n(1) engine_invariant_def StateHistory_def CurrentState_def)
  from run_invariant[OF n(3) n(2) c0 i0] show ?thesis .
qed

text \<open>
  The invariant on the half turnstile after a successful transition, a failed
  \<open>Process\<close>, a reset and a failing \<open>Execute\<close>.
\<close>

theorem engine_invariant_preserved_witness:
  "NewFSM cfg_half_turnstile = Inr turnstile_locked
   \<and> engine_invariant cfg_half_turnstile
       (foldl perform turnstile_locked
          [CallTransition (CHR ''C''), CallProcess [CHR ''P''], CallReset,
           CallExecute [CHR ''C'', CHR ''C'']])"
proof -
  have n: "NewFSM cfg_half_turnstile = Inr turnstile_locked"
    by (simp add: NewFSM_def validateAndBuildLookupSets_def cfg_half_turnstile_def
          turnstile_locked_def)
  have "engine_invariant cfg_half_turnstile
       (foldl perform turnstile_locked
          [CallTransition (CHR ''C''), CallProcess [CHR ''P''], CallReset,
           CallExecute [CHR ''C'', CHR ''C'']])"
    by (rule engine_invariant_preserved[OF n])
  with n show ?thesis by (rule conjI)
qed

subsection \<open>Acceptance\<close>

text \<open>
  Claim C7. In every run state an engine built by \<open>NewFSM\<close> can reach through any
  sequence of \<open>Reset\<close>, \<open>Transition\<close>, \<open>Process\<close> and \<open>Execute\<close> calls (failed
  ones included), \<open>IsInFinalState\<close> is true iff the current state is a member of the
  configured \<open>FinalStates\<close>; with \<open>FinalStates\<close> empty it is false in all of them.
\<close>

theorem IsInFinalState_iff:
  assumes "NewFSM cfg = Inr f0"
  shows "(IsInFinalState (foldl perform f0 calls) \<longleftrightarrow>
            CurrentState (foldl perform f0 calls) \<in> set (FinalStates cfg))
         \<and> (FinalStates cfg = [] \<longrightarrow> \<not> IsInFinalState (foldl perform f0 calls))"
proof -
  have "finalStateSet f0 = set (FinalStates cfg)"
    by (simp add: NewFSM_Inr(1)[OF assms])
  with run_static[of f0 calls]
  have "finalStateSet (foldl perform f0 calls) = set (FinalStates cfg)" by simp
  then show ?thesis by (auto simp: IsInFinalState_def CurrentState_def)
qed

text \<open>
  The half turnstile accepts after a coin and not after a reset; an automaton without
  final states accepts in no state.
\<close>

theorem IsInFinalState_iff_witness:
  "NewFSM cfg_half_turnstile = Inr turnstile_locked
   \<and> IsInFinalState (foldl perform turnstile_locked [CallExecute [CHR ''C'']])
   \<and> \<not> IsInFinalState (foldl perform turnstile_locked [CallExecute [CHR ''C''], CallReset])
   \<and> FinalStates cfg_no_final = []
   \<and> \<not> IsInFinalState (foldl perform
        \<lparr>config = cfg_no_final, currentState = ''A'', stateHistory = [''A''],
         alphabetSet = {CHR ''0''}, finalStateSet = {}\<rparr> [CallTransition (CHR ''0'')])"
proof -
  have n: "NewFSM cfg_half_turnstile = Inr turnstile_locked"
    by (simp add: NewFSM_def validateAndBuildLookupSets_def cfg_half_turnstile_def
          turnstile_locked_def)
  have m: "NewFSM cfg_no_final = Inr \<lparr>config = cfg_no_final, currentState = ''A'',
      stateHistory = [''A''], alphabetSet = {CHR ''0''}, finalStateSet = {}\<rparr>"
    by (simp add: NewFSM_def validateAndBuildLookupSets_def cfg_no_final_def)
  have c1: "CurrentState (foldl perform turnstile_locked [CallExecute [CHR ''C'']]) = ''unlocked''"
    by (simp add: Execute_def Process_def Reset_def Transition_def CurrentState_def
          turnstile_locked_def cfg_half_turnstile_def)
  have c2: "CurrentState (foldl perform turnstile_locked [CallExecute [CHR ''C''], CallReset])
      = ''locked''"
    by (simp add: Reset_def CurrentState_def Execute_def Process_def Transition_def
          turnstile_locked_def cfg_half_turnstile_def)
  have fin: "FinalStates cfg_half_turnstile = [''unlocked'']" "FinalStates cfg_no_final = []"
    by (simp_all add: cfg_half_turnstile_def cfg_no_final_def)
  from IsInFinalState_iff[OF n, of "[CallExecute [CHR ''C'']]"]
    IsInFinalState_iff[OF n, of "[CallExecute [CHR ''C''], CallReset]"]
    IsInFinalState_iff[OF m, of "[CallTransition (CHR ''0'')]"] n c1 c2 fin
  show ?thesis by simp
qed

subsection \<open>History length\<close>

lemma Transition_history:
  "snd (Transition f x) = None \<Longrightarrow>
     \<exists>t. stateHistory (fst (Transition f x)) = stateHistory f @ [t]
         \<and> currentState (fst (Transition f x)) = t"
  by (auto simp: Transition_def split: option.splits)

lemma Process_history:
  "Process f xs = (g, None) \<Longrightarrow>
     \<exists>ts. stateHistory g = stateHistory f @ ts \<and> length ts = length xs
          \<and> currentState g = last (currentState f # ts)"
proof (induction xs arbitrary: g rule: rev_induct)
  case Nil
  then show ?case by (simp add: Process_def)
next
  case (snoc x xs)
  from Process_success_prefix[OF snoc.prems] obtain h where h: "Process f xs = (h, None)" ..
  from snoc.IH[OF h] obtain ts where ts: "stateHistory h = stateHistory f @ ts"
    "length ts = length xs" by blast
  from snoc.prems h have s: "snd (Transition h x) = None" and g: "g = fst (Transition h x)"
    by (auto simp: Process_snoc_success split: prod.splits option.splits)
  from Transition_history[OF s] g obtain t where
    "stateHistory g = stateHistory h @ [t]" "currentState g = t" by blast
  with ts have "stateHistory g = stateHistory f @ (ts @ [t]) \<and> length (ts @ [t]) = length (xs @ [x])
      \<and> currentState g = last (currentState f # (ts @ [t]))" by simp
  then show ?case by blast
qed

lemma Process_failure_shape:
  "Process f xs = (g, Some e) \<Longrightarrow>
     \<exists>k e'. e = AtPosition k e' \<and> k < length xs \<and> Process f (take k xs) = (g, None)
           \<and> snd (Transition g (xs ! k)) = Some e'"
proof (induction xs rule: rev_induct)
  case Nil
  then show ?case by (simp add: Process_def)
next
  case (snoc x xs)
  obtain h r where p: "Process f xs = (h, r)" by (cases "Process f xs")
  show ?case
  proof (cases r)
    case (Some e0)
    with p snoc.prems have "Process f xs = (g, Some e)" by (simp add: Process_append)
    from snoc.IH[OF this] obtain k e' where k: "e = AtPosition k e'" "k < length xs"
      "Process f (take k xs) = (g, None)" "snd (Transition g (xs ! k)) = Some e'" by blast
    then have "e = AtPosition k e' \<and> k < length (xs @ [x])
        \<and> Process f (take k (xs @ [x])) = (g, None)
        \<and> snd (Transition g ((xs @ [x]) ! k)) = Some e'"
      by (simp add: nth_append)
    then show ?thesis by blast
  next
    case None
    obtain h' r' where t: "Transition h x = (h', r')" by (cases "Transition h x")
    from p None t snoc.prems obtain e' where e': "r' = Some e'" "e = AtPosition (length xs) e'"
      "g = h'"
      by (cases r') (simp_all add: Process_snoc_success)
    from t e' Transition_failed_unchanged[of h x e'] have "h' = h" by simp
    with p None t e' have "e = AtPosition (length xs) e' \<and> length xs < length (xs @ [x])
        \<and> Process f (take (length xs) (xs @ [x])) = (g, None)
        \<and> snd (Transition g ((xs @ [x]) ! length xs)) = Some e'"
      by simp
    then show ?thesis by blast
  qed
qed

text \<open>
  Claim C5. From a freshly reset engine (history \<open>[InitialState]\<close>, current state
  \<open>InitialState\<close>) \<open>Execute\<close> and \<open>Process\<close> agree. If the run of \<open>n\<close> symbols
  succeeds, the history has length \<open>n + 1\<close> and starts with \<open>InitialState\<close>. If it
  fails, the error carries a position \<open>k\<close> below \<open>n\<close>, the history has length
  \<open>k + 1\<close>, and the engine is the one the first \<open>k\<close> symbols leave when processed
  alone (they all succeed): its current state is entry \<open>k\<close> of the history, the state
  reached by the transition with index \<open>k - 1\<close>, or \<open>InitialState\<close> when \<open>k = 0\<close>.
\<close>

theorem history_length_after_run:
  assumes "StateHistory f = [InitialState (config f)]"
    and "CurrentState f = InitialState (config f)"
  shows "Execute f xs = Process f xs
    \<and> (\<forall>g. Process f xs = (g, None) \<longrightarrow>
          length (StateHistory g) = length xs + 1
          \<and> StateHistory g ! 0 = InitialState (config f))
    \<and> (\<forall>g e. Process f xs = (g, Some e) \<longrightarrow>
          (\<exists>k e'. e = AtPosition k e' \<and> k < length xs
             \<and> snd (Transition g (xs ! k)) = Some e'
             \<and> length (StateHistory g) = k + 1
             \<and> Process f (take k xs) = (g, None)
             \<and> CurrentState g = StateHistory g ! k))"
proof (intro conjI allI impI)
  from assms have "Reset f = f"
    by (simp add: Reset_def StateHistory_def CurrentState_def)
  then show "Execute f xs = Process f xs" by (simp add: Execute_def)
next
  fix g assume "Process f xs = (g, None)"
  from Process_history[OF this] assms(1)
  show "length (StateHistory g) = length xs + 1" and "StateHistory g ! 0 = InitialState (config f)"
    by (auto simp: StateHistory_def)
next
  fix g e assume "Process f xs = (g, Some e)"
  from Process_failure_shape[OF this] obtain k e' where k: "e = AtPosition k e'" "k < length xs"
    "Process f (take k xs) = (g, None)" "snd (Transition g (xs ! k)) = Some e'" by blast
  from Process_history[OF k(3)] k(2) obtain ts where ts: "stateHistory g = stateHistory f @ ts"
    "length ts = k" "currentState g = last (currentState f # ts)" by auto
  with assms have len: "length (StateHistory g) = k + 1"
    by (simp add: StateHistory_def)
  from assms ts have hg: "StateHistory g = currentState f # ts"
    by (simp add: StateHistory_def CurrentState_def)
  have "last (currentState f # ts) = (currentState f # ts) ! (length (currentState f # ts) - 1)"
    by (rule last_conv_nth) simp
  with ts hg have "CurrentState g = StateHistory g ! k"
    by (simp add: CurrentState_def)
  with k len show "\<exists>k e'. e = AtPosition k e' \<and> k < length xs
             \<and> snd (Transition g (xs ! k)) = Some e'
             \<and> length (StateHistory g) = k + 1
             \<and> Process f (take k xs) = (g, None)
             \<and> CurrentState g = StateHistory g ! k" by blast
qed

text \<open>
  On the half turnstile from its initial state: one symbol succeeds and leaves two
  states in the history; two symbols fail at position 1 and leave the same two states.
\<close>

theorem history_length_after_run_witness:
  "StateHistory turnstile_locked = [InitialState (config turnstile_locked)]
   \<and> CurrentState turnstile_locked = InitialState (config turnstile_locked)
   \<and> Process turnstile_locked [CHR ''C''] = (turnstile_unlocked, None)
   \<and> length (StateHistory turnstile_unlocked) = 2
   \<and> Execute turnstile_locked [CHR ''C'', CHR ''P''] =
       (turnstile_unlocked, Some (AtPosition 1 (Wrap ErrNoTransition (ForState ''unlocked''))))
   \<and> CurrentState turnstile_unlocked = StateHistory turnstile_unlocked ! 1"
proof -
  have h: "StateHistory turnstile_locked = [InitialState (config turnstile_locked)]"
    and c: "CurrentState turnstile_locked = InitialState (config turnstile_locked)"
    by (simp_all add: StateHistory_def CurrentState_def turnstile_locked_def
          cfg_half_turnstile_def)
  have ok: "Process turnstile_locked [CHR ''C''] = (turnstile_unlocked, None)"
    by (simp add: Process_def Transition_def turnstile_locked_def turnstile_unlocked_def
          cfg_half_turnstile_def)
  have bad: "Process turnstile_locked [CHR ''C'', CHR ''P''] =
       (turnstile_unlocked, Some (AtPosition 1 (Wrap ErrNoTransition (ForState ''unlocked''))))"
    by (simp add: Process_def Transition_def turnstile_locked_def turnstile_unlocked_def
          cfg_half_turnstile_def)
  from history_length_after_run[OF h c, of "[CHR ''C'']"] ok
  have l: "length (StateHistory turnstile_unlocked) = 2" by simp
  from history_length_after_run[OF h c, of "[CHR ''C'', CHR ''P'']"] bad
  have e: "Execute turnstile_locked [CHR ''C'', CHR ''P''] =
       (turnstile_unlocked, Some (AtPosition 1 (Wrap ErrNoTransition (ForState ''unlocked''))))"
    and cur: "CurrentState turnstile_unlocked = StateHistory turnstile_unlocked ! 1"
    by auto
  from h c ok l e cur show ?thesis by simp
qed

subsection \<open>The wrapper: parsing\<close>

lemma NewModThreeGeneric_eq:
  "NewModThreeGeneric = Some (modthree_engine ModState0 [ModState0])"
  by (simp add: NewModThreeGeneric_def NewFSM_def validateAndBuildLookupSets_def
        modthree_config_def modthree_engine_def)

lemma RuneLen_binary: "c \<in> {Binary0, Binary1} \<Longrightarrow> RuneLen c = 1"
  by (auto simp: RuneLen_def)

lemma len_bytes_binary: "set s \<subseteq> {Binary0, Binary1} \<Longrightarrow> len_bytes s = length s"
  by (induction s) (auto simp: len_bytes_def RuneLen_def)

lemma ParseInput_loop_binary:
  assumes alph: "alphabetSet (fsm m) = {Binary0, Binary1}"
  shows "set s \<subseteq> {Binary0, Binary1} \<Longrightarrow> i + length s \<le> length inputs \<Longrightarrow>
         ParseInput_loop m i inputs s = Inr (take i inputs @ s @ drop (i + length s) inputs)"
proof (induction s arbitrary: i inputs)
  case Nil
  then show ?case by simp
next
  case (Cons c cs)
  from Cons.prems have c: "c \<in> {Binary0, Binary1}" and cs: "set cs \<subseteq> {Binary0, Binary1}"
    and i: "i < length inputs" and len: "Suc i + length cs \<le> length (inputs[i := c])"
    by simp_all
  from c alph have valid: "ValidateInput (fsm m) c" by (simp add: ValidateInput_def)
  have step: "ParseInput_loop m i inputs (c # cs) = ParseInput_loop m (Suc i) (inputs[i := c]) cs"
    using valid RuneLen_binary[OF c] by simp
  have "take (Suc i) (inputs[i := c]) = take i inputs @ [c]"
    using i by (simp add: take_Suc_conv_app_nth)
  moreover have "drop (Suc i + length cs) (inputs[i := c]) = drop (i + length (c # cs)) inputs"
    by simp
  ultimately show ?case
    unfolding step Cons.IH[OF cs len] by simp
qed

lemma ParseInput_binary:
  assumes alph: "alphabetSet (fsm m) = {Binary0, Binary1}"
    and s: "set s \<subseteq> {Binary0, Binary1}"
  shows "ParseInput m s = Inr (if s = [] \<or> s = [Binary0] then None else Some s)"
proof -
  have "ParseInput_loop m 0 (replicate (len_bytes s) 0) s = Inr s"
    using ParseInput_loop_binary[OF alph s, of 0 "replicate (len_bytes s) 0"]
    by (simp add: len_bytes_binary[OF s])
  then show ?thesis by (simp add: ParseInput_def)
qed

lemma ParseInput_loop_invalid:
  assumes alph: "alphabetSet (fsm m) = {Binary0, Binary1}"
  shows "\<not> set s \<subseteq> {Binary0, Binary1} \<Longrightarrow>
         \<exists>k < length s. s ! k \<notin> {Binary0, Binary1} \<and> (\<forall>j < k. s ! j \<in> {Binary0, Binary1})
           \<and> ParseInput_loop m i inputs s = Inl (InvalidBinaryCharacter (s ! k) (i + k))"
proof (induction s arbitrary: i inputs)
  case Nil
  then show ?case by simp
next
  case (Cons c cs)
  show ?case
  proof (cases "c \<in> {Binary0, Binary1}")
    case False
    with alph have "ParseInput_loop m i inputs (c # cs) = Inl (InvalidBinaryCharacter c i)"
      by (simp add: ValidateInput_def)
    with False have "0 < length (c # cs) \<and> (c # cs) ! 0 \<notin> {Binary0, Binary1}
        \<and> (\<forall>j < 0. (c # cs) ! j \<in> {Binary0, Binary1})
        \<and> ParseInput_loop m i inputs (c # cs) = Inl (InvalidBinaryCharacter ((c # cs) ! 0) (i + 0))"
      by simp
    then show ?thesis by blast
  next
    case True
    with Cons.prems have "\<not> set cs \<subseteq> {Binary0, Binary1}" by auto
    from Cons.IH[OF this, of "Suc i" "inputs[i := c]"] obtain k where k: "k < length cs"
      "cs ! k \<notin> {Binary0, Binary1}" "\<forall>j < k. cs ! j \<in> {Binary0, Binary1}"
      "ParseInput_loop m (Suc i) (inputs[i := c]) cs = Inl (InvalidBinaryCharacter (cs ! k) (Suc i + k))"
      by blast
    from True alph have valid: "ValidateInput (fsm m) c" by (simp add: ValidateInput_def)
    have step: "ParseInput_loop m i inputs (c # cs) = ParseInput_loop m (Suc i) (inputs[i := c]) cs"
      using valid RuneLen_binary[OF True] by simp
    have before: "\<forall>j < Suc k. (c # cs) ! j \<in> {Binary0, Binary1}"
    proof (intro allI impI)
      fix j assume "j < Suc k"
      with True k(3) show "(c # cs) ! j \<in> {Binary0, Binary1}" by (cases j) auto
    qed
    from k step before have "Suc k < length (c # cs) \<and> (c # cs) ! Suc k \<notin> {Binary0, Binary1}
        \<and> (\<forall>j < Suc k. (c # cs) ! j \<in> {Binary0, Binary1})
        \<and> ParseInput_loop m i inputs (c # cs)
            = Inl (InvalidBinaryCharacter ((c # cs) ! Suc k) (i + Suc k))"
      by simp
    then show ?thesis by blast
  qed
qed

lemma binary_not_special:
  "\<not> set s \<subseteq> {Binary0, Binary1} \<Longrightarrow> s \<noteq> [] \<and> s \<noteq> [Binary0]"
  by auto

text \<open>
  Claim C9. For a string with a character other than \<^verbatim>\<open>'0'\<close> and \<^verbatim>\<open>'1'\<close>, in every
  run state of the wrapper: \<open>ParseInput\<close> returns the error carrying the first such
  character and its position \<open>k\<close> (all characters before it are binary digits, so
  byte offset and character index agree); \<open>ComputeModThree\<close> returns \<open>(0, false)\<close> and
  \<open>IsDivisibleByThree\<close> returns \<open>false\<close>, both with the wrapper and its engine unchanged.
\<close>

theorem invalid_character_rejected:
  assumes "\<not> set s \<subseteq> {Binary0, Binary1}"
  shows "\<exists>k < length s. s ! k \<notin> {Binary0, Binary1} \<and> (\<forall>j < k. s ! j \<in> {Binary0, Binary1})
      \<and> ParseInput (modthree_engine cur hist) s = Inl (InvalidBinaryCharacter (s ! k) k)
      \<and> ComputeModThree (modthree_engine cur hist) s = (modthree_engine cur hist, (0, False))
      \<and> IsDivisibleByThree (modthree_engine cur hist) s = (modthree_engine cur hist, False)"
proof -
  let ?m = "modthree_engine cur hist"
  have alph: "alphabetSet (fsm ?m) = {Binary0, Binary1}" by (simp add: modthree_engine_def)
  from ParseInput_loop_invalid[OF alph assms, of 0 "replicate (len_bytes s) 0"]
  obtain k where k: "k < length s" "s ! k \<notin> {Binary0, Binary1}"
    "\<forall>j < k. s ! j \<in> {Binary0, Binary1}"
    "ParseInput_loop ?m 0 (replicate (len_bytes s) 0) s = Inl (InvalidBinaryCharacter (s ! k) k)"
    by auto
  from k(4) binary_not_special[OF assms]
  have p: "ParseInput ?m s = Inl (InvalidBinaryCharacter (s ! k) k)"
    by (simp add: ParseInput_def)
  then have c: "ComputeModThree ?m s = (?m, (0, False))"
    by (simp add: ComputeModThree_def)
  then have "IsDivisibleByThree ?m s = (?m, False)"
    by (simp add: IsDivisibleByThree_def)
  with k p c show ?thesis by blast
qed

text \<open>
  \<^verbatim>\<open>"102"\<close> is rejected at position 2 with the character \<^verbatim>\<open>'2'\<close> (rune 50).
\<close>

theorem invalid_character_rejected_witness:
  "\<not> set (runes ''102'') \<subseteq> {Binary0, Binary1}
   \<and> NewModThreeGeneric = Some (modthree_engine ModState0 [ModState0])
   \<and> ParseInput (modthree_engine ModState0 [ModState0]) (runes ''102'')
       = Inl (InvalidBinaryCharacter 50 2)
   \<and> IsDivisibleByThree (modthree_engine ModState0 [ModState0]) (runes ''102'')
       = (modthree_engine ModState0 [ModState0], False)"
proof -
  have s: "\<not> set (runes ''102'') \<subseteq> {Binary0, Binary1}" by (simp add: runes_def)
  from invalid_character_rejected[OF s, of ModState0 "[ModState0]"]
  obtain k where k: "k < length (runes ''102'')" "runes ''102'' ! k \<notin> {Binary0, Binary1}"
    "\<forall>j < k. runes ''102'' ! j \<in> {Binary0, Binary1}"
    "ParseInput (modthree_engine ModState0 [ModState0]) (runes ''102'')
       = Inl (InvalidBinaryCharacter (runes ''102'' ! k) k)"
    "IsDivisibleByThree (modthree_engine ModState0 [ModState0]) (runes ''102'')
       = (modthree_engine ModState0 [ModState0], False)"
    by blast
  have r: "runes ''102'' = [49, 48, 50]" by (simp add: runes_def)
  from k(1) r have "k = 0 \<or> k = 1 \<or> k = 2" by auto
  with k(2) r have "k = 2" by auto
  with k(4) r have "ParseInput (modthree_engine ModState0 [ModState0]) (runes ''102'')
       = Inl (InvalidBinaryCharacter 50 2)" by simp
  with s k(5) NewModThreeGeneric_eq show ?thesis by simp
qed

subsection \<open>The wrapper: remainders\<close>

lemma mod3_Transition:
  assumes cfg: "config f = modthree_config"
    and cur: "currentState f = int (v mod 3)"
    and b: "b \<in> {Binary0, Binary1}"
  shows "Transition f b =
     (f\<lparr>currentState := int ((2 * v + (if b = Binary1 then 1 else 0)) mod 3),
        stateHistory := stateHistory f
          @ [int ((2 * v + (if b = Binary1 then 1 else 0)) mod 3)]\<rparr>, None)"
proof -
  have "v mod 3 = 0 \<or> v mod 3 = 1 \<or> v mod 3 = 2" by presburger
  then consider (0) "currentState f = 0" "v mod 3 = 0"
    | (1) "currentState f = 1" "v mod 3 = 1"
    | (2) "currentState f = 2" "v mod 3 = 2"
    using cur by auto
  then show ?thesis
  proof cases
    case 0
    then have "(2 * v) mod 3 = 0" "(2 * v + 1) mod 3 = 1" by presburger+
    with 0(1) cfg b show ?thesis by (auto simp: Transition_def modthree_config_def)
  next
    case 1
    then have "(2 * v) mod 3 = 2" "(2 * v + 1) mod 3 = 0" by presburger+
    with 1(1) cfg b show ?thesis by (auto simp: Transition_def modthree_config_def)
  next
    case 2
    then have "(2 * v) mod 3 = 1" "(2 * v + 1) mod 3 = 2" by presburger+
    with 2(1) cfg b show ?thesis by (auto simp: Transition_def modthree_config_def)
  qed
qed

lemma mod3_Process_loop:
  "config f = modthree_config \<Longrightarrow> currentState f = int (v mod 3) \<Longrightarrow>
   set s \<subseteq> {Binary0, Binary1} \<Longrightarrow>
   \<exists>g. Process_loop i f s = (g, None)
       \<and> currentState g = int (binary_value_from v s mod 3)"
proof (induction s arbitrary: i f v)
  case Nil
  then show ?case by (simp add: binary_value_from_def)
next
  case (Cons b bs)
  let ?v = "2 * v + (if b = Binary1 then 1 else 0)"
  let ?g = "f\<lparr>currentState := int (?v mod 3), stateHistory := stateHistory f @ [int (?v mod 3)]\<rparr>"
  from Cons.prems have b: "b \<in> {Binary0, Binary1}" and bs: "set bs \<subseteq> {Binary0, Binary1}"
    by simp_all
  from mod3_Transition[OF Cons.prems(1,2) b] have t: "Transition f b = (?g, None)" .
  have cg: "config ?g = modthree_config" using Cons.prems(1) by simp
  have sg: "currentState ?g = int (?v mod 3)" by simp
  from Cons.IH[OF cg sg bs, of "Suc i"] obtain g where
    g: "Process_loop (Suc i) ?g bs = (g, None)"
       "currentState g = int (binary_value_from ?v bs mod 3)" by blast
  have "binary_value_from v (b # bs) = binary_value_from ?v bs"
    by (simp add: binary_value_from_def)
  with t g have "Process_loop i f (b # bs) = (g, None)
      \<and> currentState g = int (binary_value_from v (b # bs) mod 3)" by simp
  then show ?case by blast
qed

text \<open>
  Claim C8. \<open>NewModThreeGeneric\<close> does not panic and builds the engine over states
  0, 1, 2 and symbols \<^verbatim>\<open>'0'\<close>, \<^verbatim>\<open>'1'\<close>. In every run state of that engine, and for every
  string of binary digits, the empty string included, \<open>ComputeModThree\<close> returns the
  value of the string as a binary numeral modulo 3, and \<open>true\<close>. Unless the string is
  \<^verbatim>\<open>""\<close> or \<^verbatim>\<open>"0"\<close>, for which the engine is not run, the engine's current state
  afterwards is that remainder.
\<close>

theorem ComputeModThree_binary:
  assumes "set s \<subseteq> {Binary0, Binary1}"
  shows "NewModThreeGeneric = Some (modthree_engine ModState0 [ModState0])
    \<and> snd (ComputeModThree (modthree_engine cur hist) s) = (int (binary_value s mod 3), True)
    \<and> (s \<noteq> [] \<and> s \<noteq> [Binary0] \<longrightarrow>
         CurrentState (fsm (fst (ComputeModThree (modthree_engine cur hist) s)))
           = int (binary_value s mod 3))"
proof -
  let ?m = "modthree_engine cur hist"
  have alph: "alphabetSet (fsm ?m) = {Binary0, Binary1}" by (simp add: modthree_engine_def)
  note parse = ParseInput_binary[OF alph assms]
  have cr: "config (Reset (fsm ?m)) = modthree_config"
    by (simp add: Reset_def modthree_engine_def)
  have sr: "currentState (Reset (fsm ?m)) = int (0 mod 3)"
    by (simp add: Reset_def modthree_engine_def modthree_config_def)
  from mod3_Process_loop[OF cr sr assms, of 0] obtain g where
    g: "Execute (fsm ?m) s = (g, None)" "currentState g = int (binary_value s mod 3)"
    by (auto simp: Execute_def Process_def binary_value_def)
  show ?thesis
  proof (cases "s = [] \<or> s = [Binary0]")
    case True
    then have "binary_value s = 0"
      by (auto simp: binary_value_def binary_value_from_def)
    with True parse NewModThreeGeneric_eq show ?thesis
      by (auto simp: ComputeModThree_def)
  next
    case False
    with parse g NewModThreeGeneric_eq show ?thesis
      by (simp add: ComputeModThree_def CurrentState_def)
  qed
qed

text \<open>
  \<^verbatim>\<open>"110"\<close> gives remainder and state 0, \<^verbatim>\<open>"1101"\<close> gives remainder and state 1, and
  the empty string gives remainder 0.
\<close>

theorem ComputeModThree_binary_witness:
  "set (runes ''110'') \<subseteq> {Binary0, Binary1}
   \<and> snd (ComputeModThree (modthree_engine ModState0 [ModState0]) (runes ''110'')) = (0, True)
   \<and> CurrentState (fsm (fst (ComputeModThree (modthree_engine ModState0 [ModState0])
        (runes ''110'')))) = 0
   \<and> set (runes ''1101'') \<subseteq> {Binary0, Binary1}
   \<and> snd (ComputeModThree (modthree_engine ModState0 [ModState0, ModState1]) (runes ''1101''))
       = (1, True)
   \<and> CurrentState (fsm (fst (ComputeModThree (modthree_engine ModState0 [ModState0, ModState1])
        (runes ''1101'')))) = 1
   \<and> snd (ComputeModThree (modthree_engine ModState2 [ModState0, ModState1, ModState2]) [])
       = (0, True)"
proof -
  have s1: "set (runes ''110'') \<subseteq> {Binary0, Binary1}"
    and s2: "set (runes ''1101'') \<subseteq> {Binary0, Binary1}"
    and s3: "set ([] :: int list) \<subseteq> {Binary0, Binary1}"
    by (simp_all add: runes_def)
  have v: "binary_value (runes ''110'') = 6" "binary_value (runes ''1101'') = 13"
    "binary_value [] = 0" "runes ''110'' \<noteq> []" "runes ''110'' \<noteq> [Binary0]"
    "runes ''1101'' \<noteq> []" "runes ''1101'' \<noteq> [Binary0]"
    by (simp_all add: runes_def binary_value_def binary_value_from_def)
  from ComputeModThree_binary[OF s1, of ModState0 "[ModState0]"]
    ComputeModThree_binary[OF s2, of ModState0 "[ModState0, ModState1]"]
    ComputeModThree_binary[OF s3, of ModState2 "[ModState0, ModState1, ModState2]"]
    s1 s2 v
  show ?thesis by simp
qed

end
